theory Spec2Isabelle
  imports Complex_Main "HOL-Library.Sublist" "HOL-Library.Multiset"
begin

section \<open>Python values, dictionaries and exceptions\<close>

text \<open>
  The script \<^verbatim>\<open>login-brute.py\<close> stores every attempt in a Python \<^verbatim>\<open>dict\<close> whose values are
  \<^verbatim>\<open>None\<close>, booleans, integers, floats and strings. A Python \<^verbatim>\<open>str\<close> is a \<open>string\<close> here, one
  \<open>char\<close> for each code point (code points below 256 only). A \<^verbatim>\<open>dict\<close> keeps its keys in
  insertion order, which the CSV writer depends on, so it is an association list with
  distinct keys: assigning to a key that exists replaces the value where it stands, a new
  key goes to the end.
\<close>

datatype pyval = PyNone | PyBool bool | PyInt int | PyFloat real | PyStr string

fun truthy :: "pyval \<Rightarrow> bool" where
  "truthy PyNone = False"
| "truthy (PyBool b) = b"
| "truthy (PyInt i) = (i \<noteq> 0)"
| "truthy (PyFloat x) = (x \<noteq> 0)"
| "truthy (PyStr s) = (s \<noteq> [])"

type_synonym 'v pydict = "(string \<times> 'v) list"

fun dict_set :: "string \<Rightarrow> 'v \<Rightarrow> 'v pydict \<Rightarrow> 'v pydict" where
  "dict_set k v [] = [(k, v)]"
| "dict_set k v ((k', v') # d) = (if k = k' then (k, v) # d else (k', v') # dict_set k v d)"

definition dict_update :: "'v pydict \<Rightarrow> (string \<times> 'v) list \<Rightarrow> 'v pydict" where
  "dict_update d items = foldl (\<lambda>acc (k, v). dict_set k v acc) d items"

definition dict_literal :: "(string \<times> 'v) list \<Rightarrow> 'v pydict" where
  "dict_literal items = dict_update [] items"

definition dict_keys :: "'v pydict \<Rightarrow> string list" where
  "dict_keys d = map fst d"

definition dict_get :: "pyval pydict \<Rightarrow> string \<Rightarrow> pyval" where
  \<comment> \<open>\<^verbatim>\<open>d.get(k)\<close>: \<^verbatim>\<open>None\<close> for a missing key\<close>
  "dict_get d k = (case map_of d k of None \<Rightarrow> PyNone | Some v \<Rightarrow> v)"

text \<open>
  An exception is its class and the text \<^verbatim>\<open>str(e)\<close> gives. \<open>RequestException\<close> stands for
  the class of that name of the \<^verbatim>\<open>requests\<close> library and its subclasses (timeouts,
  connection, DNS and TLS errors), \<open>OtherException\<close> for every subclass of
  \<^verbatim>\<open>Exception\<close> that is not named here.
\<close>

datatype exc_class =
  RequestException | ValueError | KeyError | ZeroDivisionError | OverflowError | OtherException

datatype py_exception = Raise exc_class string

fun exc_class_of :: "py_exception \<Rightarrow> exc_class" where
  "exc_class_of (Raise c m) = c"

fun exc_str :: "py_exception \<Rightarrow> string" where
  "exc_str (Raise c m) = m"

section \<open>The tester's configuration and the network\<close>

text \<open>
  The attributes of \<^verbatim>\<open>LoginTester\<close> set by \<^verbatim>\<open>__init__\<close> (its \<^verbatim>\<open>results\<close> attribute is never
  read and is left out). An indicator is \<^verbatim>\<open>None\<close> or a string. The delay is a Python
  \<^verbatim>\<open>float\<close> that nothing validates (\<^verbatim>\<open>--delay\<close> takes any float the command line gives,
  \<^verbatim>\<open>nan\<close> and \<^verbatim>\<open>inf\<close> included), so it is a number, an infinity or no number.
\<close>

datatype py_float = Finite real | PlusInfinity | MinusInfinity | NaN

record login_tester =
  url :: string
  username_field :: string
  password_field :: string
  success_indicator :: "string option"
  failure_indicator :: "string option"
  headers :: "string pydict"
  timeout :: int
  delay :: py_float
  max_workers :: int

record response =
  status_code :: int
  body_text :: string

record request =
  req_url :: string
  req_data :: "string pydict"
  req_headers :: "string pydict"
  req_timeout :: int

text \<open>
  What one call of \<^verbatim>\<open>requests.post\<close> does: it returns a response, and the attempt then
  measures \<^verbatim>\<open>round(time.time() - start_time, 3)\<close> (the second component, taken from the
  clock as it is), or it raises. The network answers the attempt at position \<open>i\<close> of the
  list of combinations with \<open>net i\<close>.
\<close>

datatype post_outcome = Returned response real | Raised py_exception

type_synonym network = "nat \<Rightarrow> request \<Rightarrow> post_outcome"

type_synonym result = "pyval pydict"

section \<open>The classifier\<close>

fun str_contains :: "string \<Rightarrow> string \<Rightarrow> bool" where
  \<comment> \<open>\<^verbatim>\<open>sub in s\<close>\<close>
  "str_contains sub [] = (sub = [])"
| "str_contains sub (c # cs) = (prefix sub (c # cs) \<or> str_contains sub cs)"

fun indicator_in :: "string option \<Rightarrow> string \<Rightarrow> bool" where
  \<comment> \<open>\<^verbatim>\<open>indicator and indicator in text\<close>: \<^verbatim>\<open>None\<close> and the empty string are false\<close>
  "indicator_in None t = False"
| "indicator_in (Some s) t = (s \<noteq> [] \<and> str_contains s t)"

definition is_successful_login :: "login_tester \<Rightarrow> response \<Rightarrow> bool" where
  "is_successful_login self resp =
     (if indicator_in (success_indicator self) (body_text resp) then True
      else if indicator_in (failure_indicator self) (body_text resp) then False
      else if status_code resp = 200 then True
      else False)"

text \<open>
  An indicator is configured when the test \<^verbatim>\<open>if self.success_indicator and ...\<close> lets it
  through: it is a string and not the empty one.
\<close>

fun configured :: "string option \<Rightarrow> bool" where
  "configured None = False"
| "configured (Some s) = (s \<noteq> [])"

section \<open>One attempt\<close>

definition login_request :: "login_tester \<Rightarrow> string \<Rightarrow> string \<Rightarrow> request" where
  \<comment> \<open>the arguments of \<^verbatim>\<open>requests.post\<close>: the URL, the form data, the headers, the timeout\<close>
  "login_request self username password =
     \<lparr>req_url = url self,
      req_data = dict_literal [(username_field self, username), (password_field self, password)],
      req_headers = headers self,
      req_timeout = timeout self\<rparr>"

definition test_login ::
  "login_tester \<Rightarrow> (request \<Rightarrow> post_outcome) \<Rightarrow> string \<Rightarrow> string \<Rightarrow> py_exception + result" where
  "test_login self post username password =
     (let result = dict_literal
            [(''username'', PyStr username),
             (''password'', PyStr password),
             (''success'', PyBool False),
             (''status_code'', PyNone),
             (''response_time'', PyNone),
             (''error'', PyNone)]
      in case post (login_request self username password) of
           Returned resp response_time \<Rightarrow>
             Inr (dict_update result
               [(''status_code'', PyInt (status_code resp)),
                (''response_time'', PyFloat response_time),
                (''success'', PyBool (is_successful_login self resp)),
                (''response_length'', PyInt (int (length (body_text resp))))])
         | Raised e \<Rightarrow>
             (if exc_class_of e = RequestException
              then Inr (dict_set ''error'' (PyStr (exc_str e)) result)
              else Inl e))"

text \<open>
  What the network did to an attempt: the call returned, or it raised an exception that
  \<open>test_login\<close> does not catch.
\<close>

fun returned :: "post_outcome \<Rightarrow> bool" where
  "returned (Returned resp t) = True"
| "returned (Raised e) = False"

fun uncaught :: "post_outcome \<Rightarrow> bool" where
  "uncaught (Returned resp t) = False"
| "uncaught (Raised e) = (exc_class_of e \<noteq> RequestException)"

section \<open>The scheduler\<close>

text \<open>
  Console output does not reach the returned list and is left out. The pause between two
  sequential attempts, \<^verbatim>\<open>time.sleep(self.delay)\<close>, changes no value, but it can raise:
  \<^verbatim>\<open>time.sleep\<close> raises \<^verbatim>\<open>ValueError\<close> for a length that is no number or is negative, and
  \<^verbatim>\<open>OverflowError\<close> for a length its clock cannot hold (64 bits of nanoseconds), an
  infinite one included. \<open>time_sleep\<close> gives the exception raised, \<open>None\<close> when the call
  pauses and returns.
\<close>

definition time_sleep :: "py_float \<Rightarrow> py_exception option" where
  "time_sleep secs =
     (case secs of
        NaN \<Rightarrow> Some (Raise ValueError ''Invalid value NaN (not a number)'')
      | PlusInfinity \<Rightarrow> Some (Raise OverflowError ''timestamp too large'')
      | MinusInfinity \<Rightarrow> Some (Raise OverflowError ''timestamp too large'')
      | Finite x \<Rightarrow>
          (if \<bar>x\<bar> * 10 ^ 9 > 2 ^ 63 then Some (Raise OverflowError ''timestamp too large'')
           else if x < 0 then Some (Raise ValueError ''sleep length must be non-negative'')
           else None))"

definition test_combinations :: "string list \<Rightarrow> string list \<Rightarrow> (string \<times> string) list" where
  \<comment> \<open>\<^verbatim>\<open>[(u, p) for u in usernames for p in passwords]\<close>\<close>
  "test_combinations usernames passwords =
     concat (map (\<lambda>u. map (\<lambda>p. (u, p)) passwords) usernames)"

text \<open>
  The sequential loop: \<open>n\<close> is \<^verbatim>\<open>len(test_combinations)\<close>, \<open>k\<close> the position of the next
  attempt counted from 0 (the source's \<^verbatim>\<open>i\<close> counts from 1 and is \<open>Suc k\<close>), \<open>results\<close> the
  list built so far. After every attempt but the last the loop pauses. An exception that
  \<open>test_login\<close> lets through, or one that the pause raises, ends the loop and the run.
\<close>

fun run_sequential_from ::
  "login_tester \<Rightarrow> network \<Rightarrow> nat \<Rightarrow> nat \<Rightarrow> (string \<times> string) list \<Rightarrow> result list
     \<Rightarrow> py_exception + result list" where
  "run_sequential_from self net n k [] results = Inr results"
| "run_sequential_from self net n k ((username, password) # rest) results =
     (case test_login self (net k) username password of
        Inl e \<Rightarrow> Inl e
      | Inr result \<Rightarrow>
          (if Suc k < n
           then (case time_sleep (delay self) of
                   Some e \<Rightarrow> Inl e
                 | None \<Rightarrow>
                     run_sequential_from self net n (Suc k) rest (results @ [result]))
           else run_sequential_from self net n (Suc k) rest (results @ [result])))"

definition run_sequential ::
  "login_tester \<Rightarrow> network \<Rightarrow> (string \<times> string) list \<Rightarrow> py_exception + result list" where
  "run_sequential self net combos = run_sequential_from self net (length combos) 0 combos []"

text \<open>
  The thread pool: every combination is submitted, and \<^verbatim>\<open>as_completed\<close> hands the futures
  back in the order \<open>order\<close> in which they finish (positions in the list of combinations).
  \<^verbatim>\<open>future.result()\<close> returns what \<open>test_login\<close> returned or raises what it raised, and the
  handler \<^verbatim>\<open>except Exception\<close> turns that into a record of four fields.
  \<^verbatim>\<open>ThreadPoolExecutor\<close> raises \<^verbatim>\<open>ValueError\<close> when \<^verbatim>\<open>max_workers\<close> is not positive.
\<close>

definition completed ::
  "login_tester \<Rightarrow> network \<Rightarrow> (string \<times> string) list \<Rightarrow> nat \<Rightarrow> result" where
  "completed self net combos i =
     (case combos ! i of (username, password) \<Rightarrow>
        (case test_login self (net i) username password of
           Inr result \<Rightarrow> result
         | Inl e \<Rightarrow> dict_literal
             [(''username'', PyStr username),
              (''password'', PyStr password),
              (''success'', PyBool False),
              (''error'', PyStr (exc_str e))]))"

definition run_parallel ::
  "login_tester \<Rightarrow> network \<Rightarrow> nat list \<Rightarrow> (string \<times> string) list
     \<Rightarrow> py_exception + result list" where
  "run_parallel self net order combos =
     (if max_workers self \<le> 0
      then Inl (Raise ValueError ''max_workers must be greater than 0'')
      else Inr (map (completed self net combos) order))"

definition run_tests ::
  "login_tester \<Rightarrow> network \<Rightarrow> nat list \<Rightarrow> string list \<Rightarrow> string list \<Rightarrow> bool
     \<Rightarrow> py_exception + result list" where
  "run_tests self net order usernames passwords in_parallel =
     (let combos = test_combinations usernames passwords
      in if in_parallel then run_parallel self net order combos
         else run_sequential self net combos)"

text \<open>
  A completion order is any arrangement of the positions \<open>0, \<dots>, n - 1\<close>: each future is
  handed back once.
\<close>

definition completion_order :: "nat \<Rightarrow> nat list \<Rightarrow> bool" where
  "completion_order n order = (mset order = mset [0..<n])"

section \<open>Reading a record\<close>

text \<open>
  The records have no field for the three outcomes of the specification; the script prints
  \<^verbatim>\<open>SUCCESS\<close> for a true \<^verbatim>\<open>success\<close> field and counts it in the report, and it stores the text
  of an exception in \<^verbatim>\<open>error\<close>. A field is set when the record has it with a value other
  than \<^verbatim>\<open>None\<close>.
\<close>

datatype outcome = Success | Failure | Error

definition is_set :: "result \<Rightarrow> string \<Rightarrow> bool" where
  "is_set r k = (dict_get r k \<noteq> PyNone)"

definition outcome_of :: "result \<Rightarrow> outcome" where
  "outcome_of r =
     (if truthy (dict_get r ''success'') then Success
      else if is_set r ''error'' then Error
      else Failure)"

text \<open>
  The invariant of the specification's data model, for a record and what the network did
  to its attempt: the error detail is set exactly for the outcome \<open>Error\<close>, and the status
  code is set exactly for the outcomes \<open>Success\<close> and \<open>Failure\<close>, which is exactly when the
  call returned.
\<close>

definition fields_invariant :: "result \<Rightarrow> post_outcome \<Rightarrow> bool" where
  "fields_invariant r answer =
     ((is_set r ''error'' = (outcome_of r = Error)) \<and>
      (is_set r ''status_code'' = (outcome_of r = Success \<or> outcome_of r = Failure)) \<and>
      (is_set r ''status_code'' = returned answer))"

definition pair_of :: "result \<Rightarrow> pyval \<times> pyval" where
  "pair_of r = (dict_get r ''username'', dict_get r ''password'')"

section \<open>The report\<close>

text \<open>
  \<open>generate_report\<close> prints; the model returns the lines in the order they are printed,
  each with the values it shows, and the exception that stopped it, if one did. The rate
  is \<^verbatim>\<open>successful/total*100\<close>, a division that raises \<^verbatim>\<open>ZeroDivisionError\<close> on a zero
  divisor; \<^verbatim>\<open>result['username']\<close> raises \<^verbatim>\<open>KeyError\<close> on a record without the key.
\<close>

datatype report_line =
    No_results_to_report
  | Banner
  | Total_tests int
  | Successful_logins int
  | Failed_logins int
  | Success_rate real
  | Credentials_header
  | Credential pyval pyval
  | Footer

definition py_truediv :: "int \<Rightarrow> int \<Rightarrow> py_exception + real" where
  "py_truediv a b =
     (if b = 0 then Inl (Raise ZeroDivisionError ''division by zero'')
      else Inr (real_of_int a / real_of_int b))"

fun report_credentials :: "result list \<Rightarrow> report_line list \<times> py_exception option" where
  "report_credentials [] = ([], None)"
| "report_credentials (r # rs) =
     (if truthy (dict_get r ''success'')
      then (case map_of r ''username'' of
              None \<Rightarrow> ([], Some (Raise KeyError ''username''))
            | Some u \<Rightarrow>
                (case map_of r ''password'' of
                   None \<Rightarrow> ([], Some (Raise KeyError ''password''))
                 | Some p \<Rightarrow>
                     (case report_credentials rs of (ls, e) \<Rightarrow> (Credential u p # ls, e))))
      else report_credentials rs)"

definition generate_report :: "result list \<Rightarrow> report_line list \<times> py_exception option" where
  "generate_report results =
     (if results = [] then ([No_results_to_report], None)
      else
        let total = int (length results);
            successful = int (length (filter (\<lambda>r. truthy (dict_get r ''success'')) results));
            failed = total - successful;
            counts = [Banner, Total_tests total, Successful_logins successful,
                      Failed_logins failed]
        in case py_truediv successful total of
             Inl e \<Rightarrow> (counts, Some e)
           | Inr q \<Rightarrow>
               (if successful > 0
                then (case report_credentials results of
                        (ls, None) \<Rightarrow>
                          (counts @ [Success_rate (q * 100), Credentials_header] @ ls @ [Footer],
                           None)
                      | (ls, Some e) \<Rightarrow>
                          (counts @ [Success_rate (q * 100), Credentials_header] @ ls, Some e))
                else (counts @ [Success_rate (q * 100), Footer], None)))"

text \<open>
  The counts of the specification's summary: the records whose outcome is \<open>Success\<close>, and
  all the others.
\<close>

definition succeeded_count :: "result list \<Rightarrow> int" where
  "succeeded_count results = int (length (filter (\<lambda>r. outcome_of r = Success) results))"

definition failed_count :: "result list \<Rightarrow> int" where
  "failed_count results =
     int (length (filter (\<lambda>r. outcome_of r = Failure \<or> outcome_of r = Error) results))"

section \<open>Saving the results\<close>

text \<open>
  The extension is \<^verbatim>\<open>output_file.split('.')[-1].lower()\<close>. For a CSV file the script hands
  the keys of the first record to \<^verbatim>\<open>csv.DictWriter\<close> as field names and then every record to
  \<^verbatim>\<open>writerows\<close>. The writer (with its default \<^verbatim>\<open>extrasaction='raise'\<close> and \<^verbatim>\<open>restval=''\<close>)
  raises \<^verbatim>\<open>ValueError\<close> at a record with a key that is not a field name, and fills a field
  the record lacks with the empty string. A row is the list of values the writer receives,
  one for each field name; turning a value into text is the \<^verbatim>\<open>csv\<close> module's work.
  The model returns what the file holds afterwards (\<open>None\<close> when it was not opened) and
  the exception raised, if one was.
\<close>

definition last_component :: "string \<Rightarrow> string" where
  \<comment> \<open>\<^verbatim>\<open>s.split('.')[-1]\<close>\<close>
  "last_component s = rev (takeWhile (\<lambda>c. c \<noteq> CHR ''.'') (rev s))"

definition lower_char :: "char \<Rightarrow> char" where
  "lower_char c =
     (let n = (of_char c :: nat)
      in if (65 \<le> n \<and> n \<le> 90) \<or> (192 \<le> n \<and> n \<le> 222 \<and> n \<noteq> 215)
         then char_of (n + 32) else c)"

definition lower :: "string \<Rightarrow> string" where
  "lower s = map lower_char s"

datatype file_content =
    Json_document "result list"
  | Csv_table "string list" "pyval list list"

fun dictwriter_rows ::
  "string list \<Rightarrow> result list \<Rightarrow> pyval list list \<times> py_exception option" where
  "dictwriter_rows fieldnames [] = ([], None)"
| "dictwriter_rows fieldnames (r # rs) =
     (if filter (\<lambda>k. k \<notin> set fieldnames) (dict_keys r) \<noteq> []
      then ([], Some (Raise ValueError ''dict contains fields not in fieldnames''))
      else (case dictwriter_rows fieldnames rs of
              (rows, e) \<Rightarrow>
                (map (\<lambda>k. case map_of r k of None \<Rightarrow> PyStr [] | Some v \<Rightarrow> v) fieldnames # rows,
                 e)))"

definition save_results :: "result list \<Rightarrow> string \<Rightarrow> file_content option \<times> py_exception option" where
  "save_results results output_file =
     (let file_extension = lower (last_component output_file)
      in if file_extension = ''json'' then (Some (Json_document results), None)
         else if file_extension = ''csv'' then
           (case results of
              [] \<Rightarrow> (None, None)
            | first # _ \<Rightarrow>
                (case dictwriter_rows (dict_keys first) results of
                   (rows, e) \<Rightarrow> (Some (Csv_table (dict_keys first) rows), e)))
         else (None, Some (Raise ValueError (''Unsupported file format: '' @ file_extension))))"

section \<open>Loading credentials\<close>

text \<open>
  The file is opened in text mode, where \<^verbatim>\<open>\r\n\<close> and a lone \<^verbatim>\<open>\r\<close> are read as \<^verbatim>\<open>\n\<close>, and
  iterating over it gives its lines, each with its \<^verbatim>\<open>\n\<close> (the last line may lack one).
  \<^verbatim>\<open>str.strip()\<close> removes the white space of both ends; \<open>isspace\<close> lists the white space
  among the code points below 256.
\<close>

fun universal_newlines :: "string \<Rightarrow> string" where
  "universal_newlines [] = []"
| "universal_newlines [c] = (if c = CHR 0x0D then [CHR 0x0A] else [c])"
| "universal_newlines (c # d # cs) =
     (if c = CHR 0x0D \<and> d = CHR 0x0A then CHR 0x0A # universal_newlines cs
      else if c = CHR 0x0D then CHR 0x0A # universal_newlines (d # cs)
      else c # universal_newlines (d # cs))"

fun file_lines_from :: "string \<Rightarrow> string \<Rightarrow> string list" where
  "file_lines_from line [] = (if line = [] then [] else [line])"
| "file_lines_from line (c # cs) =
     (if c = CHR 0x0A then (line @ [c]) # file_lines_from [] cs
      else file_lines_from (line @ [c]) cs)"

definition file_lines :: "string \<Rightarrow> string list" where
  "file_lines content = file_lines_from [] (universal_newlines content)"

definition isspace :: "char \<Rightarrow> bool" where
  "isspace c =
     (let n = (of_char c :: nat)
      in (9 \<le> n \<and> n \<le> 13) \<or> (28 \<le> n \<and> n \<le> 32) \<or> n = 133 \<or> n = 160)"

definition strip :: "string \<Rightarrow> string" where
  "strip s = rev (dropWhile isspace (rev (dropWhile isspace s)))"

definition load_credentials_from_file :: "string \<Rightarrow> string list" where
  \<comment> \<open>\<^verbatim>\<open>[line.strip() for line in f if line.strip()]\<close>\<close>
  "load_credentials_from_file content =
     map strip (filter (\<lambda>line. strip line \<noteq> []) (file_lines content))"

section \<open>Configurations and inputs of the examples\<close>

text \<open>
  The headers \<^verbatim>\<open>__init__\<close> sets when none are given.
\<close>

definition default_headers :: "string pydict" where
  "default_headers =
     [(''User-Agent'',
       ''Mozilla/5.0 (Windows NT 10.0; Win64; x64) AppleWebKit/537.36 (KHTML, like Gecko) Chrome/91.0.4472.124 Safari/537.36''),
      (''Content-Type'', ''application/x-www-form-urlencoded'')]"

definition both_indicators :: login_tester where
  "both_indicators =
     \<lparr>url = ''http://target/login'', username_field = ''username'',
      password_field = ''password'', success_indicator = Some ''Welcome'',
      failure_indicator = Some ''Invalid'', headers = default_headers, timeout = 10,
      delay = Finite 0.5,
      max_workers = 5\<rparr>"

definition no_indicators :: login_tester where
  "no_indicators =
     \<lparr>url = ''http://target/login'', username_field = ''username'',
      password_field = ''password'', success_indicator = None,
      failure_indicator = None, headers = default_headers, timeout = 10,
      delay = Finite 0.5,
      max_workers = 5\<rparr>"

text \<open>
  Networks of the examples: one that answers every attempt with the same status code, two
  that are unreachable for one attempt only (at position 2, at position 0), one where the
  attempt at
  position 1 raises an exception that is no \<open>RequestException\<close>, and one where
  \<^verbatim>\<open>requests.post\<close> rejects a timeout that is not positive with a \<^verbatim>\<open>ValueError\<close>.
\<close>

definition always_status :: "int \<Rightarrow> network" where
  "always_status code i req = Returned \<lparr>status_code = code, body_text = ''<html>login</html>''\<rparr> 0.042"

definition unreachable_at_2 :: network where
  "unreachable_at_2 i req =
     (if i = 2 then Raised (Raise RequestException ''Connection refused'')
      else Returned \<lparr>status_code = 200, body_text = ''<html>login</html>''\<rparr> 0.042)"

definition unreachable_at_0 :: network where
  "unreachable_at_0 i req =
     (if i = 0 then Raised (Raise RequestException ''Connection refused'')
      else Returned \<lparr>status_code = 200, body_text = ''<html>login</html>''\<rparr> 0.042)"

definition fault_at_1 :: network where
  "fault_at_1 i req =
     (if i = 1 then Raised (Raise OtherException ''unexpected'')
      else Returned \<lparr>status_code = 200, body_text = ''<html>login</html>''\<rparr> 0.042)"

definition rejects_timeout :: network where
  "rejects_timeout i req =
     (if req_timeout req \<le> 0 then Raised (Raise ValueError ''timeout must be positive'')
      else Returned \<lparr>status_code = 200, body_text = ''<html>login</html>''\<rparr> 0.042)"

definition zero_timeout :: login_tester where
  "zero_timeout = no_indicators\<lparr>timeout := 0\<rparr>"

definition negative_delay :: login_tester where
  "negative_delay = no_indicators\<lparr>delay := Finite (- 1)\<rparr>"

definition ok_record :: "string \<Rightarrow> string \<Rightarrow> result" where
  "ok_record u p =
     [(''username'', PyStr u), (''password'', PyStr p), (''success'', PyBool True),
      (''status_code'', PyInt 200), (''response_time'', PyFloat 0.042), (''error'', PyNone),
      (''response_length'', PyInt 18)]"

definition refused_record :: "string \<Rightarrow> string \<Rightarrow> result" where
  "refused_record u p =
     [(''username'', PyStr u), (''password'', PyStr p), (''success'', PyBool False),
      (''status_code'', PyNone), (''response_time'', PyNone),
      (''error'', PyStr ''Connection refused'')]"

definition fault_record :: "string \<Rightarrow> string \<Rightarrow> result" where
  "fault_record u p =
     [(''username'', PyStr u), (''password'', PyStr p), (''success'', PyBool False),
      (''error'', PyStr ''unexpected'')]"

section \<open>The classifier decides\<close>

lemma str_contains_sublist: "str_contains sub s = sublist sub s"
proof (induction s)
  case Nil
  show ?case by auto
next
  case (Cons c cs)
  show ?case
    using Cons.IH by (cases sub) (simp_all add: sublist_Cons_right)
qed

lemma str_contains_append: "str_contains sub (ps @ sub @ ss)"
  by (simp add: str_contains_sublist)

text \<open>
  C2. When both indicators are configured and the body holds both of them, the verdict is
  success, whatever the status code.
\<close>

theorem success_indicator_wins:
  assumes "configured (success_indicator self)" and "configured (failure_indicator self)"
    and "success_indicator self = Some s" and "failure_indicator self = Some f"
    and "body_text resp = ps @ s @ ss" and "body_text resp = pf @ f @ sf"
  shows "is_successful_login self resp = True"
proof -
  from assms(1,3) have "s \<noteq> []" by simp
  moreover have "str_contains s (body_text resp)"
    unfolding assms(5) by (rule str_contains_append)
  ultimately have "indicator_in (success_indicator self) (body_text resp)"
    using assms(3) by simp
  then show ?thesis by (simp add: is_successful_login_def)
qed

theorem success_indicator_wins_witness:
  "configured (success_indicator both_indicators) \<and>
   configured (failure_indicator both_indicators) \<and>
   is_successful_login both_indicators
     \<lparr>status_code = 403, body_text = ''Invalid? Welcome!''\<rparr> = True"
  using success_indicator_wins [of both_indicators "''Welcome''" "''Invalid''"
      "\<lparr>status_code = 403, body_text = ''Invalid? Welcome!''\<rparr>"
      "''Invalid? ''" "''!''" "[]" "''? Welcome!''"]
  by (simp add: both_indicators_def)

text \<open>
  C3. When neither indicator is configured, the verdict is success exactly for the status
  code 200, whatever the body.
\<close>

theorem status_code_fallback:
  assumes "\<not> configured (success_indicator self)" and "\<not> configured (failure_indicator self)"
  shows "is_successful_login self resp = (status_code resp = 200)"
proof -
  have "\<not> indicator_in ind t" if "\<not> configured ind" for ind t
    using that by (cases ind) simp_all
  with assms show ?thesis by (simp add: is_successful_login_def)
qed

theorem status_code_fallback_witness:
  "\<not> configured (success_indicator no_indicators) \<and>
   \<not> configured (failure_indicator no_indicators) \<and>
   is_successful_login no_indicators \<lparr>status_code = 200, body_text = ''Invalid''\<rparr> = True \<and>
   is_successful_login no_indicators \<lparr>status_code = 403, body_text = ''Welcome''\<rparr> = False"
  using status_code_fallback [of no_indicators "\<lparr>status_code = 200, body_text = ''Invalid''\<rparr>"]
    status_code_fallback [of no_indicators "\<lparr>status_code = 403, body_text = ''Welcome''\<rparr>"]
  by (simp add: no_indicators_def)

text \<open>
  C9. An empty success indicator never makes the first rule fire and an empty failure
  indicator never makes the second fire: the verdict is the one of the same configuration
  with the indicator absent, that is, the verdict of the rules that remain.
\<close>

theorem empty_indicator_never_fires:
  "is_successful_login (self\<lparr>success_indicator := Some []\<rparr>) resp =
     is_successful_login (self\<lparr>success_indicator := None\<rparr>) resp \<and>
   is_successful_login (self\<lparr>success_indicator := Some []\<rparr>) resp =
     (if indicator_in (failure_indicator self) (body_text resp) then False
      else status_code resp = 200) \<and>
   is_successful_login (self\<lparr>failure_indicator := Some []\<rparr>) resp =
     is_successful_login (self\<lparr>failure_indicator := None\<rparr>) resp \<and>
   is_successful_login (self\<lparr>failure_indicator := Some []\<rparr>) resp =
     (if indicator_in (success_indicator self) (body_text resp) then True
      else status_code resp = 200)"
  by (simp add: is_successful_login_def)

theorem empty_indicator_never_fires_witness:
  "is_successful_login (both_indicators\<lparr>success_indicator := Some []\<rparr>)
     \<lparr>status_code = 200, body_text = ''Welcome Invalid''\<rparr> = False \<and>
   is_successful_login (both_indicators\<lparr>failure_indicator := Some []\<rparr>)
     \<lparr>status_code = 403, body_text = ''Welcome Invalid''\<rparr> = True \<and>
   is_successful_login (both_indicators\<lparr>failure_indicator := Some []\<rparr>)
     \<lparr>status_code = 403, body_text = ''Invalid''\<rparr> = False"
proof -
  have f: "failure_indicator both_indicators = Some ''Invalid''"
    and s: "success_indicator both_indicators = Some ''Welcome''"
    by (simp_all add: both_indicators_def)
  have "is_successful_login (both_indicators\<lparr>success_indicator := Some []\<rparr>)
     \<lparr>status_code = 200, body_text = ''Welcome Invalid''\<rparr> = False"
    using empty_indicator_never_fires [of both_indicators
      "\<lparr>status_code = 200, body_text = ''Welcome Invalid''\<rparr>",
      THEN conjunct2, THEN conjunct1]
    by (simp add: f)
  moreover have "is_successful_login (both_indicators\<lparr>failure_indicator := Some []\<rparr>)
     \<lparr>status_code = 403, body_text = ''Welcome Invalid''\<rparr> = True"
    using empty_indicator_never_fires [of both_indicators
      "\<lparr>status_code = 403, body_text = ''Welcome Invalid''\<rparr>",
      THEN conjunct2, THEN conjunct2, THEN conjunct2]
    by (simp add: s)
  moreover have "is_successful_login (both_indicators\<lparr>failure_indicator := Some []\<rparr>)
     \<lparr>status_code = 403, body_text = ''Invalid''\<rparr> = False"
    using empty_indicator_never_fires [of both_indicators
      "\<lparr>status_code = 403, body_text = ''Invalid''\<rparr>",
      THEN conjunct2, THEN conjunct2, THEN conjunct2]
    by (simp add: s)
  ultimately show ?thesis by simp
qed

section \<open>One attempt and the sequential loop\<close>

lemma test_login_Returned:
  assumes "post (login_request self u p) = Returned resp t"
  shows "test_login self post u p =
    Inr [(''username'', PyStr u), (''password'', PyStr p),
         (''success'', PyBool (is_successful_login self resp)),
         (''status_code'', PyInt (status_code resp)),
         (''response_time'', PyFloat t),
         (''error'', PyNone),
         (''response_length'', PyInt (int (length (body_text resp))))]"
  using assms by (simp add: test_login_def dict_literal_def dict_update_def)

lemma test_login_RequestException:
  assumes "post (login_request self u p) = Raised e" and "exc_class_of e = RequestException"
  shows "test_login self post u p =
    Inr [(''username'', PyStr u), (''password'', PyStr p),
         (''success'', PyBool False),
         (''status_code'', PyNone),
         (''response_time'', PyNone),
         (''error'', PyStr (exc_str e))]"
  using assms by (simp add: test_login_def dict_literal_def dict_update_def)

lemma test_login_uncaught:
  assumes "post (login_request self u p) = Raised e" and "exc_class_of e \<noteq> RequestException"
  shows "test_login self post u p = Inl e"
  using assms by (simp add: test_login_def)

lemma test_login_Inl_iff:
  "(\<exists>e. test_login self post u p = Inl e) = uncaught (post (login_request self u p))"
  by (cases "post (login_request self u p)") (auto simp: test_login_def)

lemma length_test_combinations:
  "length (test_combinations us ps) = length us * length ps"
  by (induction us) (simp_all add: test_combinations_def)

lemma nth_test_combinations:
  assumes "k < length us * length ps"
  shows "test_combinations us ps ! k = (us ! (k div length ps), ps ! (k mod length ps))"
  using assms
proof (induction us arbitrary: k)
  case Nil
  then show ?case by simp
next
  case (Cons u us)
  let ?n = "length ps"
  have c: "test_combinations (u # us) ps = map (\<lambda>p. (u, p)) ps @ test_combinations us ps"
    by (simp add: test_combinations_def)
  show ?case
  proof (cases "k < ?n")
    case True
    then show ?thesis by (simp add: c nth_append)
  next
    case False
    then have k: "?n \<le> k" by simp
    from Cons.prems have "k - ?n < length us * ?n" using k by simp
    then have "test_combinations us ps ! (k - ?n) =
        (us ! ((k - ?n) div ?n), ps ! ((k - ?n) mod ?n))"
      by (rule Cons.IH)
    moreover have "(k - ?n) mod ?n = k mod ?n"
      using k by (simp add: le_mod_geq)
    moreover have "k div ?n = Suc ((k - ?n) div ?n)"
      using k Cons.prems by (cases "?n = 0") (simp_all add: le_div_geq)
    ultimately show ?thesis
      using False by (simp add: c nth_append)
  qed
qed

text \<open>
  When the loop returns: every attempt returned a record, and the pause after every
  attempt but the last raised nothing.
\<close>

lemma run_sequential_from_Inr:
  "run_sequential_from self net n k combos acc = Inr rs \<longleftrightarrow>
     (\<exists>rs'. rs = acc @ rs' \<and> length rs' = length combos \<and>
        (\<forall>j<length combos.
           test_login self (net (k + j)) (fst (combos ! j)) (snd (combos ! j)) = Inr (rs' ! j)) \<and>
        (\<forall>j<length combos. Suc (k + j) < n \<longrightarrow> time_sleep (delay self) = None))"
proof (induction combos arbitrary: k acc)
  case Nil
  show ?case by auto
next
  case (Cons c combos)
  obtain u p where c: "c = (u, p)" by (cases c)
  let ?P = "\<lambda>k combos rs'. \<forall>j<length combos.
      test_login self (net (k + j)) (fst (combos ! j)) (snd (combos ! j)) = Inr (rs' ! j)"
  let ?Q = "\<lambda>k combos. \<forall>j<length combos. Suc (k + j) < n \<longrightarrow> time_sleep (delay self) = None"
  show ?case
  proof (cases "test_login self (net k) u p")
    case (Inl e)
    then show ?thesis
      using c by (auto simp: All_less_Suc2)
  next
    case (Inr r)
    show ?thesis
    proof (cases "Suc k < n \<and> time_sleep (delay self) \<noteq> None")
      case True
      then have "run_sequential_from self net n k (c # combos) acc \<noteq> Inr rs"
        using c Inr by auto
      moreover from True have "\<not> ?Q k (c # combos)"
        by (auto simp: All_less_Suc2)
      ultimately show ?thesis by blast
    next
      case False
      then have q0: "Suc k < n \<longrightarrow> time_sleep (delay self) = None" by blast
      have "run_sequential_from self net n k (c # combos) acc = Inr rs \<longleftrightarrow>
          run_sequential_from self net n (Suc k) combos (acc @ [r]) = Inr rs"
        using c Inr False by (cases "Suc k < n") auto
      also have "\<dots> \<longleftrightarrow> (\<exists>rs'. rs = (acc @ [r]) @ rs' \<and> length rs' = length combos \<and>
          ?P (Suc k) combos rs' \<and> ?Q (Suc k) combos)"
        by (rule Cons.IH)
      also have "\<dots> \<longleftrightarrow> (\<exists>rs''. rs = acc @ rs'' \<and> length rs'' = length (c # combos) \<and>
          ?P k (c # combos) rs'' \<and> ?Q k (c # combos))"
        (is "?L \<longleftrightarrow> ?R")
      proof
        assume ?L
        then obtain rs' where rs': "rs = (acc @ [r]) @ rs'" "length rs' = length combos"
          "?P (Suc k) combos rs'" "?Q (Suc k) combos"
          by blast
        have "?P k (c # combos) (r # rs')"
          using rs'(3) Inr c by (simp add: All_less_Suc2)
        moreover have "?Q k (c # combos)"
          using rs'(4) q0 by (simp add: All_less_Suc2)
        ultimately show ?R
          using rs'(1,2) by (intro exI [of _ "r # rs'"]) simp
      next
        assume ?R
        then obtain rs'' where rs'': "rs = acc @ rs''" "length rs'' = length (c # combos)"
          "?P k (c # combos) rs''" "?Q k (c # combos)"
          by blast
        from rs''(2) obtain r' rs' where r': "rs'' = r' # rs'" by (cases rs'') auto
        from rs''(3) have "test_login self (net k) u p = Inr r'"
          using c r' by (simp add: All_less_Suc2)
        with Inr have "r' = r" by simp
        moreover have "?P (Suc k) combos rs'"
          using rs''(3) r' by (simp add: All_less_Suc2)
        moreover have "?Q (Suc k) combos"
          using rs''(4) by (simp add: All_less_Suc2)
        ultimately show ?L
          using rs''(1,2) r' by (intro exI [of _ rs']) simp
      qed
      finally show ?thesis .
    qed
  qed
qed

lemma run_sequential_Inr:
  "run_sequential self net combos = Inr rs \<longleftrightarrow>
     length rs = length combos \<and>
     (\<forall>j<length combos.
        test_login self (net j) (fst (combos ! j)) (snd (combos ! j)) = Inr (rs ! j)) \<and>
     (1 < length combos \<longrightarrow> time_sleep (delay self) = None)"
proof -
  have "(\<forall>j<length combos. Suc j < length combos \<longrightarrow> time_sleep (delay self) = None) \<longleftrightarrow>
      (1 < length combos \<longrightarrow> time_sleep (delay self) = None)"
  proof
    assume a: "\<forall>j<length combos. Suc j < length combos \<longrightarrow> time_sleep (delay self) = None"
    show "1 < length combos \<longrightarrow> time_sleep (delay self) = None"
    proof
      assume "1 < length combos"
      then have "0 < length combos" and "Suc 0 < length combos" by linarith+
      with a show "time_sleep (delay self) = None" by blast
    qed
  next
    assume "1 < length combos \<longrightarrow> time_sleep (delay self) = None"
    then show "\<forall>j<length combos. Suc j < length combos \<longrightarrow> time_sleep (delay self) = None"
      by auto
  qed
  then show ?thesis
    by (auto simp: run_sequential_def run_sequential_from_Inr)
qed

lemma run_sequential_returns:
  assumes "\<forall>j<length combos.
     \<not> uncaught (net j (login_request self (fst (combos ! j)) (snd (combos ! j))))"
    and "time_sleep (delay self) = None"
  shows "\<exists>rs. run_sequential self net combos = Inr rs"
proof -
  have "\<forall>j<length combos. \<exists>r.
      test_login self (net j) (fst (combos ! j)) (snd (combos ! j)) = Inr r"
  proof (intro allI impI)
    fix j assume "j < length combos"
    with assms(1) have "\<not> (\<exists>e. test_login self (net j) (fst (combos ! j)) (snd (combos ! j)) = Inl e)"
      by (simp add: test_login_Inl_iff)
    then show "\<exists>r. test_login self (net j) (fst (combos ! j)) (snd (combos ! j)) = Inr r"
      by (cases "test_login self (net j) (fst (combos ! j)) (snd (combos ! j))") auto
  qed
  then obtain f where f: "\<forall>j<length combos.
      test_login self (net j) (fst (combos ! j)) (snd (combos ! j)) = Inr (f j)"
    by metis
  have "run_sequential self net combos = Inr (map f [0..<length combos])"
    using f assms(2) by (simp add: run_sequential_Inr)
  then show ?thesis ..
qed

lemma run_sequential_aborts:
  assumes "j < length combos"
    and "uncaught (net j (login_request self (fst (combos ! j)) (snd (combos ! j))))"
  shows "\<exists>e. run_sequential self net combos = Inl e"
proof (cases "run_sequential self net combos")
  case (Inl e)
  then show ?thesis by blast
next
  case (Inr rs)
  with assms(1) have "test_login self (net j) (fst (combos ! j)) (snd (combos ! j)) = Inr (rs ! j)"
    by (simp add: run_sequential_Inr)
  moreover from assms(2) obtain e where
    "test_login self (net j) (fst (combos ! j)) (snd (combos ! j)) = Inl e"
    using test_login_Inl_iff by blast
  ultimately show ?thesis by simp
qed

lemma pair_of_test_login:
  assumes "test_login self post u p = Inr r"
  shows "pair_of r = (PyStr u, PyStr p)"
proof (cases "post (login_request self u p)")
  case (Returned resp t)
  from test_login_Returned [where post = post, OF Returned] assms show ?thesis
    by (auto simp: pair_of_def dict_get_def)
next
  case (Raised e)
  show ?thesis
  proof (cases "exc_class_of e = RequestException")
    case True
    from test_login_RequestException [where post = post, OF Raised True] assms show ?thesis
      by (auto simp: pair_of_def dict_get_def)
  next
    case False
    from test_login_uncaught [where post = post, OF Raised False] assms show ?thesis by simp
  qed
qed

text \<open>
  C4. The list a sequential run returns is in the order of the enumeration, every username
  in input order and under it every password in input order: the record at position \<open>k\<close>
  (counted from 0) is for the username at \<open>k div n\<close> and the password at \<open>k mod n\<close>, \<open>n\<close> the
  number of passwords.
\<close>
theorem sequential_order:
  assumes "run_tests self net order usernames passwords False = Inr rs"
  shows "length rs = length usernames * length passwords \<and>
    (\<forall>k<length usernames * length passwords.
       pair_of (rs ! k) =
         (PyStr (usernames ! (k div length passwords)),
          PyStr (passwords ! (k mod length passwords)))) \<and>
    map pair_of rs =
      concat (map (\<lambda>u. map (\<lambda>p. (PyStr u, PyStr p)) passwords) usernames)"
proof -
  let ?combos = "test_combinations usernames passwords"
  let ?N = "length usernames * length passwords"
  from assms have seq: "run_sequential self net ?combos = Inr rs"
    by (simp add: run_tests_def)
  then have len: "length rs = ?N"
    and att: "\<forall>j<?N. test_login self (net j) (fst (?combos ! j)) (snd (?combos ! j)) = Inr (rs ! j)"
    by (simp_all add: run_sequential_Inr length_test_combinations)
  have nth: "pair_of (rs ! k) =
      (PyStr (usernames ! (k div length passwords)), PyStr (passwords ! (k mod length passwords)))"
    if "k < ?N" for k
  proof -
    from att that have "test_login self (net k) (fst (?combos ! k)) (snd (?combos ! k)) = Inr (rs ! k)"
      by blast
    then have "pair_of (rs ! k) = (PyStr (fst (?combos ! k)), PyStr (snd (?combos ! k)))"
      by (rule pair_of_test_login)
    then show ?thesis
      using that by (simp add: nth_test_combinations)
  qed
  have "map pair_of rs = map (\<lambda>(u, p). (PyStr u, PyStr p)) ?combos"
  proof (rule nth_equalityI)
    show "length (map pair_of rs) = length (map (\<lambda>(u, p). (PyStr u, PyStr p)) ?combos)"
      by (simp add: len length_test_combinations)
  next
    fix k assume "k < length (map pair_of rs)"
    then have k: "k < ?N" by (simp add: len)
    then show "map pair_of rs ! k = map (\<lambda>(u, p). (PyStr u, PyStr p)) ?combos ! k"
      by (simp add: len nth length_test_combinations nth_test_combinations)
  qed
  also have "\<dots> = concat (map (\<lambda>u. map (\<lambda>p. (PyStr u, PyStr p)) passwords) usernames)"
    by (simp add: test_combinations_def map_concat comp_def)
  finally show ?thesis
    using len nth by blast
qed

lemma run_alice_bob:
  "run_tests no_indicators (always_status 200) [] [''alice'', ''bob''] [''pw1'', ''pw2''] False =
     Inr [ok_record ''alice'' ''pw1'', ok_record ''alice'' ''pw2'',
          ok_record ''bob'' ''pw1'', ok_record ''bob'' ''pw2'']"
  by (simp add: run_tests_def run_sequential_def test_combinations_def test_login_def
      dict_literal_def dict_update_def always_status_def is_successful_login_def
      no_indicators_def ok_record_def time_sleep_def)

theorem sequential_order_witness:
  "\<exists>rs. run_tests no_indicators (always_status 200) [] [''alice'', ''bob''] [''pw1'', ''pw2''] False
          = Inr rs \<and>
        length rs = 4 \<and>
        map pair_of rs =
          [(PyStr ''alice'', PyStr ''pw1''), (PyStr ''alice'', PyStr ''pw2''),
           (PyStr ''bob'', PyStr ''pw1''), (PyStr ''bob'', PyStr ''pw2'')]"
  using sequential_order [OF run_alice_bob] run_alice_bob by simp

section \<open>The thread pool\<close>

lemma completion_order_length: "completion_order n order \<Longrightarrow> length order = n"
  unfolding completion_order_def by (metis length_upt minus_nat.diff_0 size_mset)

lemma completion_order_set: "completion_order n order \<Longrightarrow> set order = {0..<n}"
  unfolding completion_order_def by (metis set_mset_mset set_upt)

lemma completion_order_nth:
  assumes "completion_order n order" and "k < n"
  shows "order ! k < n"
proof -
  from assms have "order ! k \<in> set order"
    by (simp add: completion_order_length)
  with assms(1) show ?thesis by (simp add: completion_order_set)
qed

lemma run_parallel_Inr:
  "0 < max_workers self \<Longrightarrow>
     run_parallel self net order combos = Inr (map (completed self net combos) order)"
  by (simp add: run_parallel_def)

lemma completed_eq:
  "completed self net combos i =
     (case test_login self (net i) (fst (combos ! i)) (snd (combos ! i)) of
        Inr result \<Rightarrow> result
      | Inl e \<Rightarrow>
          [(''username'', PyStr (fst (combos ! i))), (''password'', PyStr (snd (combos ! i))),
           (''success'', PyBool False), (''error'', PyStr (exc_str e))])"
  by (cases "combos ! i")
    (simp add: completed_def dict_literal_def dict_update_def split: sum.splits)

lemma completed_caught:
  assumes "\<not> uncaught (net i (login_request self (fst (combos ! i)) (snd (combos ! i))))"
  shows "test_login self (net i) (fst (combos ! i)) (snd (combos ! i)) =
     Inr (completed self net combos i)"
proof -
  from assms have "\<not> (\<exists>e. test_login self (net i) (fst (combos ! i)) (snd (combos ! i)) = Inl e)"
    by (simp add: test_login_Inl_iff)
  then show ?thesis
    by (cases "test_login self (net i) (fst (combos ! i)) (snd (combos ! i))")
      (auto simp: completed_eq)
qed

lemma completed_uncaught:
  assumes "net i (login_request self (fst (combos ! i)) (snd (combos ! i))) = Raised e"
    and "exc_class_of e \<noteq> RequestException"
  shows "completed self net combos i =
     [(''username'', PyStr (fst (combos ! i))), (''password'', PyStr (snd (combos ! i))),
      (''success'', PyBool False), (''error'', PyStr (exc_str e))]"
  using test_login_uncaught [where post = "net i", OF assms]
  by (simp add: completed_eq)

lemma pair_of_completed:
  "pair_of (completed self net combos i) = (PyStr (fst (combos ! i)), PyStr (snd (combos ! i)))"
proof (cases "test_login self (net i) (fst (combos ! i)) (snd (combos ! i))")
  case (Inl e)
  then show ?thesis
    by (simp add: completed_eq pair_of_def dict_get_def)
next
  case (Inr r)
  then have "pair_of r = (PyStr (fst (combos ! i)), PyStr (snd (combos ! i)))"
    by (rule pair_of_test_login)
  with Inr show ?thesis
    by (simp add: completed_eq)
qed

text \<open>
  In the thread pool every combination gets one record, whatever its attempt does: the
  pairs of the returned records are the combinations, each as often as it was enumerated.
\<close>

lemma parallel_run_complete:
  assumes "completion_order (length usernames * length passwords) order"
    and "0 < max_workers self"
  shows "\<exists>rs. run_tests self net order usernames passwords True = Inr rs \<and>
     length rs = length usernames * length passwords \<and>
     mset (map pair_of rs) =
       mset (map (\<lambda>(u, p). (PyStr u, PyStr p)) (test_combinations usernames passwords))"
proof -
  let ?combos = "test_combinations usernames passwords"
  let ?rs = "map (completed self net ?combos) order"
  have run: "run_tests self net order usernames passwords True = Inr ?rs"
    using assms(2) by (simp add: run_tests_def run_parallel_Inr)
  have len: "length ?rs = length usernames * length passwords"
    using assms(1) by (simp add: completion_order_length)
  have "map pair_of ?rs = map (\<lambda>i. (\<lambda>(u, p). (PyStr u, PyStr p)) (?combos ! i)) order"
    by (simp add: pair_of_completed split: prod.splits)
  then have "mset (map pair_of ?rs) =
      mset (map (\<lambda>i. (\<lambda>(u, p). (PyStr u, PyStr p)) (?combos ! i)) order)"
    by (simp only:)
  also have "\<dots> =
      image_mset (\<lambda>i. (\<lambda>(u, p). (PyStr u, PyStr p)) (?combos ! i)) (mset order)"
    by (rule mset_map)
  also have "\<dots> = image_mset (\<lambda>i. (\<lambda>(u, p). (PyStr u, PyStr p)) (?combos ! i))
      (mset [0..<length ?combos])"
    using assms(1) by (simp add: completion_order_def length_test_combinations)
  also have "\<dots> = mset (map (\<lambda>(u, p). (PyStr u, PyStr p)) (map (\<lambda>i. ?combos ! i) [0..<length ?combos]))"
    by (simp add: comp_def)
  also have "map (\<lambda>i. ?combos ! i) [0..<length ?combos] = ?combos"
    by (rule map_nth)
  finally show ?thesis
    using run len by blast
qed

lemma run_sequential_pairs:
  assumes "run_sequential self net combos = Inr rs"
  shows "map pair_of rs = map (\<lambda>(u, p). (PyStr u, PyStr p)) combos"
proof (rule nth_equalityI)
  from assms show "length (map pair_of rs) = length (map (\<lambda>(u, p). (PyStr u, PyStr p)) combos)"
    by (simp add: run_sequential_Inr)
next
  fix k assume "k < length (map pair_of rs)"
  with assms have k: "k < length combos" "k < length rs"
    and "test_login self (net k) (fst (combos ! k)) (snd (combos ! k)) = Inr (rs ! k)"
    by (simp_all add: run_sequential_Inr)
  then have "pair_of (rs ! k) = (PyStr (fst (combos ! k)), PyStr (snd (combos ! k)))"
    using pair_of_test_login by blast
  with k show "map pair_of rs ! k = map (\<lambda>(u, p). (PyStr u, PyStr p)) combos ! k"
    by (simp add: case_prod_beta)
qed

text \<open>
  The sequential loop gives every combination one record, in order, as long as no attempt
  raises an exception that \<open>test_login\<close> does not catch and the pause raises nothing.
\<close>

lemma sequential_run_complete:
  assumes "\<forall>j<length (test_combinations usernames passwords).
     \<not> uncaught (net j (login_request self
          (fst (test_combinations usernames passwords ! j))
          (snd (test_combinations usernames passwords ! j))))"
    and "time_sleep (delay self) = None"
  shows "\<exists>rs. run_tests self net order usernames passwords False = Inr rs \<and>
     length rs = length usernames * length passwords \<and>
     map pair_of rs =
       map (\<lambda>(u, p). (PyStr u, PyStr p)) (test_combinations usernames passwords)"
proof -
  from run_sequential_returns [where net = net and self = self, OF assms] obtain rs where
    seq: "run_sequential self net (test_combinations usernames passwords) = Inr rs" ..
  then have "run_tests self net order usernames passwords False = Inr rs"
    by (simp add: run_tests_def)
  moreover from seq have "length rs = length usernames * length passwords"
    by (simp add: run_sequential_Inr length_test_combinations)
  moreover note run_sequential_pairs [OF seq]
  ultimately show ?thesis by blast
qed

section \<open>Exceptions in a run\<close>

text \<open>
  C1. The claim is that a run returns one record for each combination in both modes, also
  when an attempt raises an unexpected exception. The sequential loop has no handler for
  it: where \<^verbatim>\<open>requests.post\<close> raises an exception that is no \<open>RequestException\<close>, the
  sequential run ends with that exception and returns no list, while the thread pool
  records the same attempts.
\<close>
theorem sequential_run_aborts_on_unexpected_exception:
  "run_tests zero_timeout rejects_timeout [] [''alice'', ''bob''] [''pw1''] False =
     Inl (Raise ValueError ''timeout must be positive'') \<and>
   run_tests zero_timeout rejects_timeout [1, 0] [''alice'', ''bob''] [''pw1''] True =
     Inr [[(''username'', PyStr ''bob''), (''password'', PyStr ''pw1''),
           (''success'', PyBool False), (''error'', PyStr ''timeout must be positive'')],
          [(''username'', PyStr ''alice''), (''password'', PyStr ''pw1''),
           (''success'', PyBool False), (''error'', PyStr ''timeout must be positive'')]]"
  by (simp add: run_tests_def run_sequential_def run_parallel_def completed_def
      test_combinations_def test_login_def login_request_def dict_literal_def dict_update_def
      rejects_timeout_def zero_timeout_def no_indicators_def time_sleep_def)

text \<open>
  A delay that \<^verbatim>\<open>time.sleep\<close> refuses ends a sequential run of more than one attempt after
  the first attempt, whatever the network does; a run of one attempt never pauses, and the
  thread pool never does.
\<close>

lemma sequential_run_negative_delay:
  "run_tests negative_delay unreachable_at_0 [] [''alice'', ''bob''] [''pw1''] False =
     Inl (Raise ValueError ''sleep length must be non-negative'') \<and>
   run_tests negative_delay unreachable_at_0 [] [''alice''] [''pw1''] False =
     Inr [refused_record ''alice'' ''pw1''] \<and>
   run_tests negative_delay unreachable_at_0 [1, 0] [''alice'', ''bob''] [''pw1''] True =
     Inr [ok_record ''bob'' ''pw1'', refused_record ''alice'' ''pw1'']"
  by (simp add: run_tests_def run_sequential_def run_parallel_def completed_def
      test_combinations_def test_login_def dict_literal_def dict_update_def
      unreachable_at_0_def is_successful_login_def negative_delay_def no_indicators_def
      ok_record_def refused_record_def time_sleep_def)

lemma time_sleep_accepts:
  assumes "0 \<le> x" and "x \<le> 9 * 10 ^ 9"
  shows "time_sleep (Finite x) = None"
proof -
  have "\<bar>x\<bar> * 10 ^ 9 \<le> 9 * 10 ^ 9 * 10 ^ 9"
    using assms by simp
  also have "(9 * 10 ^ 9 * 10 ^ 9 :: real) \<le> 2 ^ 63"
    by simp
  finally show ?thesis
    using assms(1) by (simp add: time_sleep_def)
qed

text \<open>
  C7. An attempt whose network call fails at transport level returns a record with the
  text of the error, no status code and no success; the outcome read from it is an error.
  Transport failures never end a run: when no attempt raises anything but a
  \<open>RequestException\<close>, the thread pool can be made (\<^verbatim>\<open>max_workers\<close> is positive) and the
  delay is a length \<^verbatim>\<open>time.sleep\<close> accepts, both modes return one record for each
  combination, and the record of every combination is what its own attempt returned.
\<close>
theorem transport_failure_is_recorded:
  assumes "combos = test_combinations usernames passwords"
    and "i < length combos"
    and "net i (login_request self (fst (combos ! i)) (snd (combos ! i))) = Raised e"
    and "exc_class_of e = RequestException"
    and "\<forall>j<length combos.
           \<not> uncaught (net j (login_request self (fst (combos ! j)) (snd (combos ! j))))"
    and "completion_order (length combos) order"
    and "0 < max_workers self"
    and "time_sleep (delay self) = None"
  shows "(\<exists>r. test_login self (net i) (fst (combos ! i)) (snd (combos ! i)) = Inr r \<and>
            r = [(''username'', PyStr (fst (combos ! i))),
                 (''password'', PyStr (snd (combos ! i))),
                 (''success'', PyBool False),
                 (''status_code'', PyNone),
                 (''response_time'', PyNone),
                 (''error'', PyStr (exc_str e))] \<and>
            outcome_of r = Error \<and> is_set r ''error'' \<and> \<not> is_set r ''status_code'') \<and>
         (\<exists>rs. run_tests self net order usernames passwords False = Inr rs \<and>
            length rs = length combos \<and>
            (\<forall>j<length combos.
               test_login self (net j) (fst (combos ! j)) (snd (combos ! j)) = Inr (rs ! j))) \<and>
         (\<exists>rs. run_tests self net order usernames passwords True = Inr rs \<and>
            length rs = length combos \<and>
            (\<forall>k<length combos.
               test_login self (net (order ! k))
                 (fst (combos ! (order ! k))) (snd (combos ! (order ! k))) = Inr (rs ! k)))"
proof (intro conjI)
  let ?r = "[(''username'', PyStr (fst (combos ! i))),
             (''password'', PyStr (snd (combos ! i))),
             (''success'', PyBool False),
             (''status_code'', PyNone),
             (''response_time'', PyNone),
             (''error'', PyStr (exc_str e))]"
  have "test_login self (net i) (fst (combos ! i)) (snd (combos ! i)) = Inr ?r"
    using assms(3,4) by (rule test_login_RequestException [where post = "net i"])
  moreover have "outcome_of ?r = Error \<and> is_set ?r ''error'' \<and> \<not> is_set ?r ''status_code''"
    by (simp add: outcome_of_def is_set_def dict_get_def)
  ultimately show "\<exists>r. test_login self (net i) (fst (combos ! i)) (snd (combos ! i)) = Inr r \<and>
      r = ?r \<and> outcome_of r = Error \<and> is_set r ''error'' \<and> \<not> is_set r ''status_code''"
    by blast
next
  from run_sequential_returns [where net = net and self = self, OF assms(5) assms(8)] obtain rs
    where seq: "run_sequential self net combos = Inr rs" ..
  then have "run_tests self net order usernames passwords False = Inr rs"
    by (simp add: run_tests_def assms(1))
  with seq show "\<exists>rs. run_tests self net order usernames passwords False = Inr rs \<and>
      length rs = length combos \<and>
      (\<forall>j<length combos.
         test_login self (net j) (fst (combos ! j)) (snd (combos ! j)) = Inr (rs ! j))"
    by (auto simp: run_sequential_Inr)
next
  let ?rs = "map (completed self net combos) order"
  have "run_tests self net order usernames passwords True = Inr ?rs"
    using assms(7) by (simp add: run_tests_def run_parallel_Inr assms(1))
  moreover have "length ?rs = length combos"
    using assms(6) by (simp add: completion_order_length)
  moreover have "test_login self (net (order ! k))
      (fst (combos ! (order ! k))) (snd (combos ! (order ! k))) = Inr (?rs ! k)"
    if "k < length combos" for k
  proof -
    from assms(6) that have "order ! k < length combos"
      by (rule completion_order_nth)
    with assms(5) have "\<not> uncaught (net (order ! k)
        (login_request self (fst (combos ! (order ! k))) (snd (combos ! (order ! k)))))"
      by blast
    then have "test_login self (net (order ! k))
        (fst (combos ! (order ! k))) (snd (combos ! (order ! k))) =
        Inr (completed self net combos (order ! k))"
      by (rule completed_caught)
    then show ?thesis
      using that assms(6) by (simp add: completion_order_length)
  qed
  ultimately show "\<exists>rs. run_tests self net order usernames passwords True = Inr rs \<and>
      length rs = length combos \<and>
      (\<forall>k<length combos.
         test_login self (net (order ! k))
           (fst (combos ! (order ! k))) (snd (combos ! (order ! k))) = Inr (rs ! k))"
    by blast
qed

lemma run_unreachable_sequential:
  "run_tests no_indicators unreachable_at_2 [3, 1, 2, 0] [''alice'', ''bob''] [''pw1'', ''pw2''] False =
     Inr [ok_record ''alice'' ''pw1'', ok_record ''alice'' ''pw2'',
          refused_record ''bob'' ''pw1'', ok_record ''bob'' ''pw2'']"
  by (simp add: run_tests_def run_sequential_def test_combinations_def test_login_def
      dict_literal_def dict_update_def unreachable_at_2_def is_successful_login_def
      no_indicators_def ok_record_def refused_record_def time_sleep_def)

lemma run_unreachable_parallel:
  "run_tests no_indicators unreachable_at_2 [3, 1, 2, 0] [''alice'', ''bob''] [''pw1'', ''pw2''] True =
     Inr [ok_record ''bob'' ''pw2'', ok_record ''alice'' ''pw2'',
          refused_record ''bob'' ''pw1'', ok_record ''alice'' ''pw1'']"
  by (simp add: run_tests_def run_parallel_def completed_def test_combinations_def test_login_def
      dict_literal_def dict_update_def unreachable_at_2_def is_successful_login_def
      no_indicators_def ok_record_def refused_record_def time_sleep_def)

lemma completion_order_3120: "completion_order 4 [3, 1, 2, 0]"
  by code_simp

theorem transport_failure_is_recorded_witness:
  "exc_class_of (Raise RequestException ''Connection refused'') = RequestException \<and>
   completion_order 4 [3, 1, 2, 0] \<and>
   time_sleep (delay no_indicators) = None \<and>
   test_login no_indicators (unreachable_at_2 2) ''bob'' ''pw1'' =
     Inr (refused_record ''bob'' ''pw1'') \<and>
   outcome_of (refused_record ''bob'' ''pw1'') = Error \<and>
   is_set (refused_record ''bob'' ''pw1'') ''error'' \<and>
   \<not> is_set (refused_record ''bob'' ''pw1'') ''status_code'' \<and>
   run_tests no_indicators unreachable_at_2 [3, 1, 2, 0] [''alice'', ''bob''] [''pw1'', ''pw2''] False =
     Inr [ok_record ''alice'' ''pw1'', ok_record ''alice'' ''pw2'',
          refused_record ''bob'' ''pw1'', ok_record ''bob'' ''pw2''] \<and>
   run_tests no_indicators unreachable_at_2 [3, 1, 2, 0] [''alice'', ''bob''] [''pw1'', ''pw2''] True =
     Inr [ok_record ''bob'' ''pw2'', ok_record ''alice'' ''pw2'',
          refused_record ''bob'' ''pw1'', ok_record ''alice'' ''pw1'']"
proof -
  let ?combos = "[(''alice'', ''pw1''), (''alice'', ''pw2''), (''bob'', ''pw1''), (''bob'', ''pw2'')]"
  have h1: "?combos = test_combinations [''alice'', ''bob''] [''pw1'', ''pw2'']"
    by (simp add: test_combinations_def)
  have h2: "2 < length ?combos" by simp
  have h3: "unreachable_at_2 2 (login_request no_indicators (fst (?combos ! 2)) (snd (?combos ! 2))) =
      Raised (Raise RequestException ''Connection refused'')"
    by (simp add: unreachable_at_2_def)
  have h4: "exc_class_of (Raise RequestException ''Connection refused'') = RequestException"
    by simp
  have h5: "\<forall>j<length ?combos. \<not> uncaught
      (unreachable_at_2 j (login_request no_indicators (fst (?combos ! j)) (snd (?combos ! j))))"
    by (simp add: unreachable_at_2_def)
  have h6: "completion_order (length ?combos) [3, 1, 2, 0]"
    by code_simp
  have h7: "0 < max_workers no_indicators"
    by (simp add: no_indicators_def)
  have h8: "time_sleep (delay no_indicators) = None"
    by (simp add: no_indicators_def time_sleep_def)
  from transport_failure_is_recorded
    [where net = unreachable_at_2 and self = no_indicators, OF h1 h2 h3 h4 h5 h6 h7 h8]
  obtain r where r: "test_login no_indicators (unreachable_at_2 2) (fst (?combos ! 2)) (snd (?combos ! 2)) = Inr r"
    "outcome_of r = Error" "is_set r ''error''" "\<not> is_set r ''status_code''"
    by blast
  have "test_login no_indicators (unreachable_at_2 2) ''bob'' ''pw1'' =
      Inr (refused_record ''bob'' ''pw1'')"
    by (simp add: test_login_def dict_literal_def dict_update_def unreachable_at_2_def
        refused_record_def)
  with r have "r = refused_record ''bob'' ''pw1''" by simp
  with r \<open>test_login no_indicators (unreachable_at_2 2) ''bob'' ''pw1'' =
      Inr (refused_record ''bob'' ''pw1'')\<close>
  show ?thesis
    using h4 h8 completion_order_3120 run_unreachable_sequential run_unreachable_parallel
    by simp
qed

section \<open>The fields of a record\<close>

lemma fields_invariant_test_login:
  assumes "test_login self post u p = Inr r"
  shows "fields_invariant r (post (login_request self u p))"
proof (cases "post (login_request self u p)")
  case (Returned resp t)
  from test_login_Returned [where post = post, OF Returned] assms Returned show ?thesis
    by (auto simp: fields_invariant_def is_set_def outcome_of_def dict_get_def)
next
  case (Raised e)
  show ?thesis
  proof (cases "exc_class_of e = RequestException")
    case True
    from test_login_RequestException [where post = post, OF Raised True] assms Raised
    show ?thesis
      by (auto simp: fields_invariant_def is_set_def outcome_of_def dict_get_def)
  next
    case False
    from test_login_uncaught [where post = post, OF Raised False] assms show ?thesis by simp
  qed
qed

lemma fields_invariant_completed:
  "fields_invariant (completed self net combos i)
     (net i (login_request self (fst (combos ! i)) (snd (combos ! i))))"
proof (cases "test_login self (net i) (fst (combos ! i)) (snd (combos ! i))")
  case (Inl e)
  then have "uncaught (net i (login_request self (fst (combos ! i)) (snd (combos ! i))))"
    using test_login_Inl_iff by blast
  then have "\<not> returned (net i (login_request self (fst (combos ! i)) (snd (combos ! i))))"
    by (cases "net i (login_request self (fst (combos ! i)) (snd (combos ! i)))") simp_all
  with Inl show ?thesis
    by (simp add: completed_eq fields_invariant_def is_set_def outcome_of_def dict_get_def)
next
  case (Inr r)
  then have "fields_invariant r (net i (login_request self (fst (combos ! i)) (snd (combos ! i))))"
    by (rule fields_invariant_test_login)
  with Inr show ?thesis by (simp add: completed_eq)
qed

text \<open>
  C5. In every record a run returns, in either mode, the error detail is set exactly when
  the outcome is \<open>Error\<close>, and the status code is set exactly when the outcome is
  \<open>Success\<close> or \<open>Failure\<close>, which is exactly when the network call of its attempt
  returned. This covers the record of a response, the record of a transport error and
  the record the thread pool writes for an exception \<open>test_login\<close> let through.
\<close>

theorem record_fields_invariant:
  assumes "combos = test_combinations usernames passwords"
  shows "(run_tests self net order usernames passwords False = Inr rs \<longrightarrow>
            (\<forall>k<length rs. fields_invariant (rs ! k)
               (net k (login_request self (fst (combos ! k)) (snd (combos ! k)))))) \<and>
         (completion_order (length combos) order \<and>
          run_tests self net order usernames passwords True = Inr rs \<longrightarrow>
            (\<forall>k<length rs. fields_invariant (rs ! k)
               (net (order ! k)
                  (login_request self (fst (combos ! (order ! k))) (snd (combos ! (order ! k)))))))"
proof (intro conjI impI allI)
  fix k
  assume run: "run_tests self net order usernames passwords False = Inr rs" and k: "k < length rs"
  from run have "run_sequential self net combos = Inr rs"
    by (simp add: run_tests_def assms)
  with k have "test_login self (net k) (fst (combos ! k)) (snd (combos ! k)) = Inr (rs ! k)"
    by (simp add: run_sequential_Inr)
  then show "fields_invariant (rs ! k)
      (net k (login_request self (fst (combos ! k)) (snd (combos ! k))))"
    by (rule fields_invariant_test_login)
next
  fix k
  assume "completion_order (length combos) order \<and>
    run_tests self net order usernames passwords True = Inr rs" and k: "k < length rs"
  then have "run_parallel self net order combos = Inr rs"
    by (simp add: run_tests_def assms)
  then have "rs = map (completed self net combos) order"
    by (simp add: run_parallel_def split: if_splits)
  with k have "rs ! k = completed self net combos (order ! k)" by simp
  then show "fields_invariant (rs ! k)
      (net (order ! k)
         (login_request self (fst (combos ! (order ! k))) (snd (combos ! (order ! k)))))"
    by (simp add: fields_invariant_completed)
qed

lemma run_fault_parallel:
  "run_tests no_indicators fault_at_1 [1, 0, 3, 2] [''alice'', ''bob''] [''pw1'', ''pw2''] True =
     Inr [fault_record ''alice'' ''pw2'', ok_record ''alice'' ''pw1'',
          ok_record ''bob'' ''pw2'', ok_record ''bob'' ''pw1'']"
  by (simp add: run_tests_def run_parallel_def completed_def test_combinations_def test_login_def
      dict_literal_def dict_update_def fault_at_1_def is_successful_login_def
      no_indicators_def ok_record_def fault_record_def)

theorem record_fields_invariant_witness:
  "fields_invariant (refused_record ''bob'' ''pw1'')
     (Raised (Raise RequestException ''Connection refused'')) \<and>
   fields_invariant (fault_record ''alice'' ''pw2'')
     (Raised (Raise OtherException ''unexpected'')) \<and>
   fields_invariant (ok_record ''alice'' ''pw1'')
     (Returned \<lparr>status_code = 200, body_text = ''<html>login</html>''\<rparr> 0.042) \<and>
   outcome_of (fault_record ''alice'' ''pw2'') = Error \<and>
   is_set (fault_record ''alice'' ''pw2'') ''error'' \<and>
   \<not> is_set (fault_record ''alice'' ''pw2'') ''status_code'' \<and>
   outcome_of (ok_record ''alice'' ''pw1'') = Success \<and>
   \<not> is_set (ok_record ''alice'' ''pw1'') ''error'' \<and>
   is_set (ok_record ''alice'' ''pw1'') ''status_code''"
proof -
  let ?us = "[''alice'', ''bob'']" and ?ps = "[''pw1'', ''pw2'']"
  let ?combos = "[(''alice'', ''pw1''), (''alice'', ''pw2''), (''bob'', ''pw1''), (''bob'', ''pw2'')]"
  have c: "?combos = test_combinations ?us ?ps"
    by (simp add: test_combinations_def)
  have o: "completion_order (length ?combos) [1, 0, 3, 2]"
    by code_simp
  from record_fields_invariant [where net = unreachable_at_2 and self = no_indicators, OF c]
    run_unreachable_sequential
  have "\<forall>k<4. fields_invariant
      ([ok_record ''alice'' ''pw1'', ok_record ''alice'' ''pw2'',
        refused_record ''bob'' ''pw1'', ok_record ''bob'' ''pw2''] ! k)
      (unreachable_at_2 k (login_request no_indicators (fst (?combos ! k)) (snd (?combos ! k))))"
    by fastforce
  then have a: "fields_invariant (refused_record ''bob'' ''pw1'')
      (Raised (Raise RequestException ''Connection refused''))"
    and b: "fields_invariant (ok_record ''alice'' ''pw1'')
      (Returned \<lparr>status_code = 200, body_text = ''<html>login</html>''\<rparr> 0.042)"
    by (simp_all add: All_less_Suc2 eval_nat_numeral unreachable_at_2_def)
  from record_fields_invariant [where net = fault_at_1 and self = no_indicators, OF c]
    run_fault_parallel o
  have "\<forall>k<4. fields_invariant
      ([fault_record ''alice'' ''pw2'', ok_record ''alice'' ''pw1'',
        ok_record ''bob'' ''pw2'', ok_record ''bob'' ''pw1''] ! k)
      (fault_at_1 ([1, 0, 3, 2] ! k)
         (login_request no_indicators (fst (?combos ! ([1, 0, 3, 2] ! k)))
            (snd (?combos ! ([1, 0, 3, 2] ! k)))))"
    by fastforce
  then have d: "fields_invariant (fault_record ''alice'' ''pw2'')
      (Raised (Raise OtherException ''unexpected''))"
    by (simp add: All_less_Suc2 eval_nat_numeral fault_at_1_def)
  from a b d show ?thesis
    by (simp add: fields_invariant_def outcome_of_def is_set_def dict_get_def
        ok_record_def fault_record_def refused_record_def)
qed

section \<open>The report counts\<close>

lemma outcome_Success_iff: "outcome_of r = Success \<longleftrightarrow> truthy (dict_get r ''success'')"
  by (simp add: outcome_of_def)

lemma outcome_other_iff:
  "outcome_of r = Failure \<or> outcome_of r = Error \<longleftrightarrow> \<not> truthy (dict_get r ''success'')"
  by (simp add: outcome_of_def)

lemma succeeded_plus_failed:
  "succeeded_count results + failed_count results = int (length results)"
proof -
  have "length (filter (\<lambda>r. truthy (dict_get r ''success'')) results) +
      length (filter (\<lambda>r. \<not> truthy (dict_get r ''success'')) results) = length results"
    by (rule sum_length_filter_compl)
  then show ?thesis
    unfolding succeeded_count_def failed_count_def outcome_Success_iff outcome_other_iff
    by linarith
qed

lemma generate_report_nonempty:
  assumes "results \<noteq> []"
  shows "\<exists>rest e.
     generate_report results =
       ([Banner, Total_tests (int (length results)),
         Successful_logins (succeeded_count results),
         Failed_logins (int (length results) - succeeded_count results),
         Success_rate (real_of_int (succeeded_count results) / real_of_int (int (length results)) * 100)]
        @ rest, e) \<and>
     (e = None \<or> (\<exists>k. e = Some (Raise KeyError k)))"
proof -
  have total: "int (length results) \<noteq> 0"
    using assms by simp
  obtain ls e where creds: "report_credentials results = (ls, e)"
    by (cases "report_credentials results")
  have key: "e = None \<or> (\<exists>k. e = Some (Raise KeyError k))"
    using creds
  proof (induction results arbitrary: ls e)
    case Nil
    then show ?case by simp
  next
    case (Cons r rs)
    then show ?case
      by (cases "report_credentials rs")
        (auto split: if_splits option.splits)
  qed
  show ?thesis
  proof (cases e)
    case None
    with creds total assms show ?thesis
      by (auto simp: generate_report_def py_truediv_def succeeded_count_def
          outcome_Success_iff Let_def)
  next
    case (Some x)
    with creds total assms key show ?thesis
      by (auto simp: generate_report_def py_truediv_def succeeded_count_def
          outcome_Success_iff Let_def)
  qed
qed

text \<open>
  C6. The report counts as successful the records whose outcome is \<open>Success\<close> and as failed
  all the others (\<open>Failure\<close> and \<open>Error\<close>), the two counts add up to the total, and the rate
  it prints is successful / total (as a percentage). The division is only reached for a
  list that is not empty: for the empty list the report is the single line of the early
  return, and no list makes the report raise \<^verbatim>\<open>ZeroDivisionError\<close>.
\<close>

theorem report_counts:
  "(results = [] \<longrightarrow> generate_report results = ([No_results_to_report], None)) \<and>
   (results \<noteq> [] \<longrightarrow>
      take 5 (fst (generate_report results)) =
        [Banner, Total_tests (int (length results)),
         Successful_logins (succeeded_count results),
         Failed_logins (failed_count results),
         Success_rate (real_of_int (succeeded_count results) /
                       real_of_int (int (length results)) * 100)]) \<and>
   succeeded_count results + failed_count results = int (length results) \<and>
   (\<forall>m. snd (generate_report results) \<noteq> Some (Raise ZeroDivisionError m))"
proof (intro conjI impI allI)
  assume "results = []"
  then show "generate_report results = ([No_results_to_report], None)"
    by (simp add: generate_report_def)
next
  assume "results \<noteq> []"
  from generate_report_nonempty [OF this] obtain rest e where
    "generate_report results =
       ([Banner, Total_tests (int (length results)),
         Successful_logins (succeeded_count results),
         Failed_logins (int (length results) - succeeded_count results),
         Success_rate (real_of_int (succeeded_count results) / real_of_int (int (length results)) * 100)]
        @ rest, e)"
    by blast
  moreover have "int (length results) - succeeded_count results = failed_count results"
    using succeeded_plus_failed [of results] by simp
  ultimately show "take 5 (fst (generate_report results)) =
        [Banner, Total_tests (int (length results)),
         Successful_logins (succeeded_count results),
         Failed_logins (failed_count results),
         Success_rate (real_of_int (succeeded_count results) /
                       real_of_int (int (length results)) * 100)]"
    by simp
next
  show "succeeded_count results + failed_count results = int (length results)"
    by (rule succeeded_plus_failed)
next
  fix m
  show "snd (generate_report results) \<noteq> Some (Raise ZeroDivisionError m)"
  proof (cases "results = []")
    case True
    then show ?thesis by (simp add: generate_report_def)
  next
    case False
    from generate_report_nonempty [OF this] show ?thesis by auto
  qed
qed

lemma counts_of_example:
  "succeeded_count [ok_record ''alice'' ''pw1'', ok_record ''alice'' ''pw2'',
      refused_record ''bob'' ''pw1'', ok_record ''bob'' ''pw2''] = 3"
  by (simp add: succeeded_count_def outcome_of_def dict_get_def ok_record_def refused_record_def)

theorem report_counts_witness:
  "generate_report [] = ([No_results_to_report], None) \<and>
   take 5 (fst (generate_report
      [ok_record ''alice'' ''pw1'', ok_record ''alice'' ''pw2'',
       refused_record ''bob'' ''pw1'', ok_record ''bob'' ''pw2''])) =
     [Banner, Total_tests 4, Successful_logins 3, Failed_logins 1, Success_rate 75] \<and>
   failed_count [ok_record ''alice'' ''pw1'', ok_record ''alice'' ''pw2'',
       refused_record ''bob'' ''pw1'', ok_record ''bob'' ''pw2''] = 1"
proof -
  let ?rs = "[ok_record ''alice'' ''pw1'', ok_record ''alice'' ''pw2'',
       refused_record ''bob'' ''pw1'', ok_record ''bob'' ''pw2'']"
  note a = report_counts [of "[]"] and b = report_counts [of ?rs]
  from b have f: "failed_count ?rs = 1"
    by (simp add: counts_of_example)
  from a have "generate_report [] = ([No_results_to_report], None)"
    by simp
  moreover from b have "take 5 (fst (generate_report ?rs)) =
     [Banner, Total_tests 4, Successful_logins 3, Failed_logins 1, Success_rate 75]"
    by (simp add: counts_of_example f)
  ultimately show ?thesis using f by simp
qed

section \<open>Saving as CSV\<close>

lemma dictwriter_rows_complete:
  assumes "\<forall>r\<in>set results. set (dict_keys r) \<subseteq> set fieldnames"
  shows "dictwriter_rows fieldnames results =
     (map (\<lambda>r. map (\<lambda>k. case map_of r k of None \<Rightarrow> PyStr [] | Some v \<Rightarrow> v) fieldnames) results,
      None)"
  using assms
proof (induction results)
  case Nil
  show ?case by simp
next
  case (Cons r rs)
  then have "filter (\<lambda>k. k \<notin> set fieldnames) (dict_keys r) = []"
    by (auto simp: filter_empty_conv)
  with Cons show ?case by simp
qed

text \<open>
  When no record has a key that the first record lacks, the CSV file gets one row for
  each record, in order, and nothing is raised.
\<close>

lemma save_results_csv_complete:
  assumes "lower (last_component output_file) = ''csv''"
    and "results = first # others"
    and "\<forall>r\<in>set results. set (dict_keys r) \<subseteq> set (dict_keys first)"
  shows "save_results results output_file =
     (Some (Csv_table (dict_keys first)
        (map (\<lambda>r. map (\<lambda>k. case map_of r k of None \<Rightarrow> PyStr [] | Some v \<Rightarrow> v)
                 (dict_keys first)) results)),
      None)"
proof -
  have "dictwriter_rows (dict_keys first) results =
     (map (\<lambda>r. map (\<lambda>k. case map_of r k of None \<Rightarrow> PyStr [] | Some v \<Rightarrow> v)
                 (dict_keys first)) results, None)"
    using assms(3) by (rule dictwriter_rows_complete)
  then show ?thesis
    using assms(1,2) by (simp add: save_results_def)
qed

text \<open>
  C8. The claim is that every list of results that is not empty can be saved as CSV and
  read back record by record. The field names are the keys of the first record only, and
  the writer raises \<^verbatim>\<open>ValueError\<close> at a record with another key: the record of a response has
  the key \<^verbatim>\<open>response_length\<close>, which the record of a transport error lacks, so a list
  that starts with a transport error and goes on with a response is cut off after its
  header and first row. The same happens after a record written by the thread pool's
  handler, which has four keys.
\<close>

theorem csv_save_fails_after_error_record:
  "run_tests no_indicators unreachable_at_0 [] [''alice''] [''pw1'', ''pw2''] False =
     Inr [refused_record ''alice'' ''pw1'', ok_record ''alice'' ''pw2''] \<and>
   save_results [refused_record ''alice'' ''pw1'', ok_record ''alice'' ''pw2''] ''results.csv'' =
     (Some (Csv_table
        [''username'', ''password'', ''success'', ''status_code'', ''response_time'', ''error'']
        [[PyStr ''alice'', PyStr ''pw1'', PyBool False, PyNone, PyNone,
          PyStr ''Connection refused'']]),
      Some (Raise ValueError ''dict contains fields not in fieldnames'')) \<and>
   run_tests no_indicators fault_at_1 [1, 0, 3, 2] [''alice'', ''bob''] [''pw1'', ''pw2''] True =
     Inr [fault_record ''alice'' ''pw2'', ok_record ''alice'' ''pw1'',
          ok_record ''bob'' ''pw2'', ok_record ''bob'' ''pw1''] \<and>
   save_results [fault_record ''alice'' ''pw2'', ok_record ''alice'' ''pw1'',
                 ok_record ''bob'' ''pw2'', ok_record ''bob'' ''pw1''] ''results.csv'' =
     (Some (Csv_table [''username'', ''password'', ''success'', ''error'']
        [[PyStr ''alice'', PyStr ''pw2'', PyBool False, PyStr ''unexpected'']]),
      Some (Raise ValueError ''dict contains fields not in fieldnames''))"
proof -
  have ext: "lower (last_component ''results.csv'') = ''csv''"
    by code_simp
  have run: "run_tests no_indicators unreachable_at_0 [] [''alice''] [''pw1'', ''pw2''] False =
     Inr [refused_record ''alice'' ''pw1'', ok_record ''alice'' ''pw2'']"
    by (simp add: run_tests_def run_sequential_def test_combinations_def test_login_def
      dict_literal_def dict_update_def unreachable_at_0_def is_successful_login_def
      no_indicators_def ok_record_def refused_record_def time_sleep_def)
  show ?thesis
    using run run_fault_parallel
    by (simp add: save_results_def ext dict_keys_def ok_record_def refused_record_def
        fault_record_def)
qed

text \<open>
  The other way round the file is written: a transport error after a response gets the
  empty string in the column \<^verbatim>\<open>response_length\<close>.
\<close>

lemma csv_save_error_record_later:
  "save_results [ok_record ''alice'' ''pw1'', refused_record ''alice'' ''pw2''] ''results.csv'' =
     (Some (Csv_table
        [''username'', ''password'', ''success'', ''status_code'', ''response_time'', ''error'',
         ''response_length'']
        [[PyStr ''alice'', PyStr ''pw1'', PyBool True, PyInt 200, PyFloat 0.042, PyNone,
          PyInt 18],
         [PyStr ''alice'', PyStr ''pw2'', PyBool False, PyNone, PyNone,
          PyStr ''Connection refused'', PyStr []]]),
      None)"
proof -
  have ext: "lower (last_component ''results.csv'') = ''csv''"
    by code_simp
  show ?thesis
    by (simp add: save_results_def ext dict_keys_def ok_record_def refused_record_def)
qed

section \<open>Loading credentials strips the lines\<close>

lemma strip_split:
  "dropWhile isspace s = strip s @ rev (takeWhile isspace (rev (dropWhile isspace s)))"
proof -
  let ?t = "dropWhile isspace s"
  have "rev (takeWhile isspace (rev ?t) @ dropWhile isspace (rev ?t)) = ?t"
    by (simp only: takeWhile_dropWhile_id rev_rev_ident)
  then show ?thesis
    by (simp only: rev_append strip_def)
qed

lemma strip_decomposition:
  "\<exists>l r. s = l @ strip s @ r \<and> (\<forall>c\<in>set l. isspace c) \<and> (\<forall>c\<in>set r. isspace c)"
proof -
  let ?l = "takeWhile isspace s" and ?t = "dropWhile isspace s"
  let ?r = "rev (takeWhile isspace (rev ?t))"
  have "s = ?l @ ?t" by simp
  also have "?t = strip s @ ?r" by (rule strip_split)
  finally have "s = ?l @ strip s @ ?r" .
  moreover have "\<forall>c\<in>set ?l. isspace c"
    by (auto dest: set_takeWhileD)
  moreover have "\<forall>c\<in>set ?r. isspace c"
    by (auto dest: set_takeWhileD)
  ultimately show ?thesis by blast
qed

lemma strip_empty_iff: "strip s = [] \<longleftrightarrow> (\<forall>c\<in>set s. isspace c)"
proof
  assume "strip s = []"
  with strip_decomposition [of s] show "\<forall>c\<in>set s. isspace c"
    by (metis Un_iff append_Nil set_append)
next
  assume "\<forall>c\<in>set s. isspace c"
  then have d: "dropWhile isspace s = []"
    by (metis dropWhile_eq_Nil_conv)
  show "strip s = []"
    unfolding strip_def d by simp
qed

lemma strip_ends:
  assumes "strip s \<noteq> []"
  shows "\<not> isspace (hd (strip s)) \<and> \<not> isspace (last (strip s))"
proof -
  let ?t = "dropWhile isspace s"
  let ?u = "dropWhile isspace (rev ?t)"
  from assms have u: "?u \<noteq> []" by (simp only: strip_def rev_is_Nil_conv not_False_eq_True)
  then have "\<not> isspace (hd ?u)" by (rule hd_dropWhile)
  moreover have "last (strip s) = hd ?u"
    using u by (simp only: strip_def last_rev)
  ultimately have last: "\<not> isspace (last (strip s))" by simp
  have t: "?t \<noteq> []"
  proof
    assume "?t = []"
    then have "?u = []" by (simp only: rev.simps dropWhile.simps)
    with u show False by contradiction
  qed
  then have "\<not> isspace (hd ?t)" by (rule hd_dropWhile)
  moreover have "hd ?t = hd (strip s)"
    using assms strip_split [of s] by (metis hd_append2)
  ultimately show ?thesis using last by simp
qed

lemma concat_file_lines_from: "concat (file_lines_from line cs) = line @ cs"
  by (induction cs arbitrary: line) simp_all

lemma file_lines_from_shape:
  assumes "CHR 0x0A \<notin> set line" and "l \<in> set (file_lines_from line cs)"
  shows "l \<noteq> [] \<and> CHR 0x0A \<notin> set (butlast l)"
  using assms
proof (induction cs arbitrary: line)
  case Nil
  then show ?case
    by (auto split: if_splits dest: in_set_butlastD)
next
  case (Cons c cs)
  show ?case
  proof (cases "c = CHR 0x0A")
    case True
    with Cons.prems(2) have "l = line @ [c] \<or> l \<in> set (file_lines_from [] cs)"
      by simp
    then show ?thesis
    proof
      assume "l = line @ [c]"
      with Cons.prems(1) show ?thesis by simp
    next
      assume "l \<in> set (file_lines_from [] cs)"
      with Cons.IH [of "[]"] show ?thesis by simp
    qed
  next
    case False
    with Cons.prems have "CHR 0x0A \<notin> set (line @ [c])"
      and "l \<in> set (file_lines_from (line @ [c]) cs)"
      by simp_all
    then show ?thesis by (rule Cons.IH)
  qed
qed

text \<open>
  C10. Loading keeps the lines that hold a character that is no white space, in file
  order, and returns each of them stripped: what is removed at both ends of a line is
  white space only, and a returned entry is not empty and neither starts nor ends with
  white space. The lines are the pieces of the file's text, each ending at a line feed.
\<close>

theorem load_credentials_strips:
  "load_credentials_from_file content =
     map strip (filter (\<lambda>line. \<exists>c\<in>set line. \<not> isspace c) (file_lines content)) \<and>
   concat (file_lines content) = universal_newlines content \<and>
   (\<forall>line\<in>set (file_lines content). line \<noteq> [] \<and> CHR 0x0A \<notin> set (butlast line)) \<and>
   (\<forall>line\<in>set (file_lines content).
      \<exists>l r. line = l @ strip line @ r \<and> (\<forall>c\<in>set l. isspace c) \<and> (\<forall>c\<in>set r. isspace c)) \<and>
   (\<forall>entry\<in>set (load_credentials_from_file content).
      entry \<noteq> [] \<and> \<not> isspace (hd entry) \<and> \<not> isspace (last entry))"
proof (intro conjI ballI)
  have "(\<lambda>line. strip line \<noteq> []) = (\<lambda>line. \<exists>c\<in>set line. \<not> isspace c)"
    by (simp add: strip_empty_iff)
  then show "load_credentials_from_file content =
      map strip (filter (\<lambda>line. \<exists>c\<in>set line. \<not> isspace c) (file_lines content))"
    by (simp add: load_credentials_from_file_def)
next
  show "concat (file_lines content) = universal_newlines content"
    by (simp add: file_lines_def concat_file_lines_from)
next
  fix line assume "line \<in> set (file_lines content)"
  then have "line \<in> set (file_lines_from [] (universal_newlines content))"
    by (simp add: file_lines_def)
  with file_lines_from_shape [of "[]" line "universal_newlines content"]
  show "line \<noteq> []" and "CHR 0x0A \<notin> set (butlast line)"
    by simp_all
next
  fix line
  show "\<exists>l r. line = l @ strip line @ r \<and> (\<forall>c\<in>set l. isspace c) \<and> (\<forall>c\<in>set r. isspace c)"
    by (rule strip_decomposition)
next
  fix entry assume "entry \<in> set (load_credentials_from_file content)"
  then obtain line where "entry = strip line" and "strip line \<noteq> []"
    by (auto simp: load_credentials_from_file_def)
  then show "entry \<noteq> []" and "\<not> isspace (hd entry)" and "\<not> isspace (last entry)"
    using strip_ends [of line] by simp_all
qed

theorem load_credentials_strips_witness:
  "load_credentials_from_file
     (''  admin  '' @ [CHR 0x0D, CHR 0x0A] @ '' '' @ [CHR 0x09, CHR 0x0A, CHR 0x0A] @
      ''root'' @ [CHR 0x0D] @ ''a b'' @ [CHR 0x0A] @ ''  guest'') =
     [''admin'', ''root'', ''a b'', ''guest''] \<and>
   file_lines
     (''  admin  '' @ [CHR 0x0D, CHR 0x0A] @ '' '' @ [CHR 0x09, CHR 0x0A, CHR 0x0A] @
      ''root'' @ [CHR 0x0D] @ ''a b'' @ [CHR 0x0A] @ ''  guest'') =
     [''  admin  '' @ [CHR 0x0A], '' '' @ [CHR 0x09, CHR 0x0A], [CHR 0x0A],
      ''root'' @ [CHR 0x0A], ''a b'' @ [CHR 0x0A], ''  guest'']"
proof -
  let ?content = "''  admin  '' @ [CHR 0x0D, CHR 0x0A] @ '' '' @ [CHR 0x09, CHR 0x0A, CHR 0x0A] @
      ''root'' @ [CHR 0x0D] @ ''a b'' @ [CHR 0x0A] @ ''  guest''"
  have lines: "file_lines ?content =
     [''  admin  '' @ [CHR 0x0A], '' '' @ [CHR 0x09, CHR 0x0A], [CHR 0x0A],
      ''root'' @ [CHR 0x0A], ''a b'' @ [CHR 0x0A], ''  guest'']"
    by (simp add: file_lines_def)
  from load_credentials_strips [of ?content]
  have "load_credentials_from_file ?content =
     map strip (filter (\<lambda>line. \<exists>c\<in>set line. \<not> isspace c) (file_lines ?content))"
    by (rule conjunct1)
  also have "\<dots> = [''admin'', ''root'', ''a b'', ''guest'']"
    unfolding lines by (simp add: strip_def isspace_def)
  finally show ?thesis using lines by simp
qed

end
